theory Spec2Isabelle
  imports Complex_Main "HOL-Library.Word"
begin

unbundle bit_operations_syntax

section \<open>Data model of package navigation\<close>

text \<open>
  Go's \<open>int\<close> is a 64-bit two's complement integer on the targets the program is built
  for. Costs and distances are added and compared by the flow-field computation, so they
  are 64-bit words: \<open>+\<close> wraps, \<open><s\<close> is the signed comparison of Go's \<open><\<close>.

  Grid coordinates and direction components are modelled as unbounded integers. The only
  arithmetic on them is \<open>current.X + dir.X\<close> on a coordinate that is inside the grid,
  and the result is used only after the bounds check \<open>IsValidPosition\<close>: a sum that
  would wrap in Go is at least \<open>2^63\<close> before wrapping and negative after it, so it fails
  the bounds check in Go and in the model alike.
\<close>

type_synonym int64 = "64 word"

datatype Position = Position (pX: int) (pY: int)

datatype Direction = Direction (dX: int) (dY: int)

datatype CellType = Passable | Obstacle | Goal | Building

datatype error =
    ErrInvalidPosition
  | ErrInvalidCost
  | ErrNoPath
  | ErrInvalidGoal
  | ErrEmptyGrid
  | ErrInvalidDirection
  | ErrGridDimensions       \<comment> \<open>errors.New("grid dimensions must be positive")\<close>
  | ErrNoDirections         \<comment> \<open>errors.New("must have at least one direction")\<close>
  | ErrDiagonalCost         \<comment> \<open>errors.New("diagonal cost must be positive")\<close>
  | ErrCostHeightMismatch   \<comment> \<open>errors.New("cost grid height doesn't match navigator grid")\<close>
  | ErrCostWidthMismatch    \<comment> \<open>errors.New("cost grid width doesn't match navigator grid")\<close>

definition FourWayDirections :: "Direction list" where
  "FourWayDirections =
     [Direction 0 (-1), Direction 0 1, Direction (-1) 0, Direction 1 0]"

definition EightWayDirections :: "Direction list" where
  "EightWayDirections =
     [Direction 0 (-1), Direction 0 1, Direction (-1) 0, Direction 1 0,
      Direction (-1) (-1), Direction (-1) 1, Direction 1 (-1), Direction 1 1]"

record Grid =
  Width :: int
  Height :: int
  Costs :: "int64 list list"
  FlowField :: "Direction list list"
  Distances :: "int64 list list"
  CellTypes :: "CellType list list"

text \<open>
  \<open>arr[pos.Y][pos.X]\<close>, read and written. Every use below is behind a bounds check
  against \<open>Width\<close> and \<open>Height\<close>; \<open>wfGrid\<close> says that the four arrays have exactly
  that shape, which \<open>NewGrid\<close> establishes and every operation keeps.
\<close>

definition at2 :: "'a list list \<Rightarrow> Position \<Rightarrow> 'a" where
  "at2 arr pos = arr ! nat (pY pos) ! nat (pX pos)"

definition put2 :: "'a list list \<Rightarrow> Position \<Rightarrow> 'a \<Rightarrow> 'a list list" where
  "put2 arr pos v = arr[nat (pY pos) := (arr ! nat (pY pos))[nat (pX pos) := v]]"

definition shaped :: "int \<Rightarrow> int \<Rightarrow> 'a list list \<Rightarrow> bool" where
  "shaped w h arr \<longleftrightarrow> length arr = nat h \<and> (\<forall>row \<in> set arr. length row = nat w)"

definition wfGrid :: "Grid \<Rightarrow> bool" where
  "wfGrid g \<longleftrightarrow>
     shaped (Width g) (Height g) (Costs g) \<and>
     shaped (Width g) (Height g) (FlowField g) \<and>
     shaped (Width g) (Height g) (Distances g) \<and>
     shaped (Width g) (Height g) (CellTypes g)"

text \<open>
  \<open>NewGrid\<close>: \<open>make\<close> zero-initialises, then the loop stores cost 1 and \<open>Passable\<close>
  in every cell. \<open>make\<close> with a negative length panics; the constructor of the
  navigator calls \<open>NewGrid\<close> only after \<open>Validate\<close>, with positive dimensions.
\<close>

definition NewGrid :: "int \<Rightarrow> int \<Rightarrow> Grid" where
  "NewGrid width height =
     \<lparr> Width = width, Height = height,
       Costs = replicate (nat height) (replicate (nat width) 1),
       FlowField = replicate (nat height) (replicate (nat width) (Direction 0 0)),
       Distances = replicate (nat height) (replicate (nat width) 0),
       CellTypes = replicate (nat height) (replicate (nat width) Passable) \<rparr>"

definition IsValidPosition :: "Grid \<Rightarrow> Position \<Rightarrow> bool" where
  "IsValidPosition g pos \<longleftrightarrow>
     pX pos \<ge> 0 \<and> pX pos < Width g \<and> pY pos \<ge> 0 \<and> pY pos < Height g"

definition IsPassable :: "Grid \<Rightarrow> Position \<Rightarrow> bool" where
  "IsPassable g pos \<longleftrightarrow>
     (if \<not> IsValidPosition g pos then False else at2 (Costs g) pos \<noteq> - 1)"

text \<open>
  The setters mutate the grid in place and return an error value; the model returns the
  error (\<open>None\<close> for \<open>nil\<close>) together with the grid after the call.
\<close>

definition SetObstacle :: "Grid \<Rightarrow> Position \<Rightarrow> error option \<times> Grid" where
  "SetObstacle g pos =
     (if \<not> IsValidPosition g pos then (Some ErrInvalidPosition, g)
      else (None, g\<lparr> Costs := put2 (Costs g) pos (- 1),
                      CellTypes := put2 (CellTypes g) pos Obstacle \<rparr>))"

definition SetBuilding :: "Grid \<Rightarrow> Position \<Rightarrow> error option \<times> Grid" where
  "SetBuilding g pos =
     (if \<not> IsValidPosition g pos then (Some ErrInvalidPosition, g)
      else (None, g\<lparr> Costs := put2 (Costs g) pos (- 1),
                      CellTypes := put2 (CellTypes g) pos Building \<rparr>))"

definition SetCost :: "Grid \<Rightarrow> Position \<Rightarrow> int64 \<Rightarrow> error option \<times> Grid" where
  "SetCost g pos cost =
     (if \<not> IsValidPosition g pos then (Some ErrInvalidPosition, g)
      else if cost <s 0 then (Some ErrInvalidCost, g)
      else (None, g\<lparr> Costs := put2 (Costs g) pos cost \<rparr>))"

definition GridGetFlowDirection :: "Grid \<Rightarrow> Position \<Rightarrow> error + Direction" where
  "GridGetFlowDirection g pos =
     (if \<not> IsValidPosition g pos then Inl ErrInvalidPosition
      else Inr (at2 (FlowField g) pos))"

section \<open>Configuration\<close>

text \<open>
  \<open>DiagonalCost\<close> is a \<open>float64\<close> in the source. The model keeps its value as a
  rational number; the one operation on it, \<open>int(float64(moveCost) * DiagonalCost)\<close>,
  is \<open>mulDiagonal\<close>: the exact product, truncated toward zero as Go's conversion
  from float to int does, and reduced to 64 bits. Rounding of the float product is not
  modelled. No theorem below depends on the value of \<open>mulDiagonal\<close>, except where
  a bound on it appears as a hypothesis and in the 5 by 5 scenario, where the product is
  \<open>1 * 1.4\<close> and its truncation is 1 with or without rounding.
\<close>

record Config =
  GridWidth :: int
  GridHeight :: int
  Directions :: "Direction list"
  DiagonalCost :: rat
  AllowCornerCutting :: bool

definition EightWayConfig :: "int \<Rightarrow> int \<Rightarrow> Config" where
  "EightWayConfig width height =
     \<lparr> GridWidth = width, GridHeight = height, Directions = EightWayDirections,
       DiagonalCost = 14 / 10, AllowCornerCutting = True \<rparr>"

definition Validate :: "Config \<Rightarrow> error option" where
  "Validate c =
     (if GridWidth c \<le> 0 \<or> GridHeight c \<le> 0 then Some ErrGridDimensions
      else if length (Directions c) = 0 then Some ErrNoDirections
      else if DiagonalCost c \<le> 0 then Some ErrDiagonalCost
      else None)"

definition truncateToInt :: "rat \<Rightarrow> int" where
  "truncateToInt q = (if q < 0 then \<lceil>q\<rceil> else \<lfloor>q\<rfloor>)"

definition mulDiagonal :: "int64 \<Rightarrow> rat \<Rightarrow> int64" where
  "mulDiagonal moveCost d = word_of_int (truncateToInt (of_int (sint moveCost) * d))"

section \<open>The flow-field navigator\<close>

record FlowFieldNavigator =
  config :: Config
  grid :: Grid
  goal :: Position
  isGoalSet :: bool

definition NewFlowFieldNavigator :: "Config \<Rightarrow> error + FlowFieldNavigator" where
  "NewFlowFieldNavigator c =
     (case Validate c of
        Some err \<Rightarrow> Inl err
      | None \<Rightarrow> Inr \<lparr> config = c, grid = NewGrid (GridWidth c) (GridHeight c),
                       goal = Position 0 0, isGoalSet = False \<rparr>)"

definition MaxInt32 :: int64 where
  "MaxInt32 = 2147483647"

text \<open>
  The cells in the order of the nested loops
  \<open>for y := range Height { for x := range Width { ... } }\<close>.
\<close>

definition allPositions :: "Grid \<Rightarrow> Position list" where
  "allPositions g =
     concat (map (\<lambda>y. map (\<lambda>x. Position x y) [0..Width g - 1]) [0..Height g - 1])"

definition resetCell :: "Position \<Rightarrow> Grid \<Rightarrow> Grid" where
  "resetCell pos g =
     g\<lparr> Distances := put2 (Distances g) pos MaxInt32,
        FlowField := put2 (FlowField g) pos (Direction 0 0) \<rparr>"

definition isDiagonal :: "Direction \<Rightarrow> bool" where
  "isDiagonal dir \<longleftrightarrow> dX dir \<noteq> 0 \<and> dY dir \<noteq> 0"

definition stepTo :: "Position \<Rightarrow> Direction \<Rightarrow> Position" where
  "stepTo pos dir = Position (pX pos + dX dir) (pY pos + dY dir)"

definition moveCostOf :: "Config \<Rightarrow> Grid \<Rightarrow> Direction \<Rightarrow> Position \<Rightarrow> int64" where
  "moveCostOf cfg g dir next =
     (let moveCost = at2 (Costs g) next
      in if isDiagonal dir then mulDiagonal moveCost (DiagonalCost cfg) else moveCost)"

text \<open>
  One pass of the body of \<open>for _, dir := range f.config.Directions\<close> in phase 1, on the
  grid and the queue. \<open>currentDist\<close> was read when \<open>current\<close> was popped.
\<close>

definition relax ::
  "Config \<Rightarrow> Position \<Rightarrow> int64 \<Rightarrow> Direction \<Rightarrow> Grid \<times> Position list \<Rightarrow> Grid \<times> Position list"
where
  "relax cfg current currentDist dir s =
     (case s of (g, queue) \<Rightarrow>
        let next = stepTo current dir in
        if \<not> IsValidPosition g next \<or> \<not> IsPassable g next then (g, queue)
        else
          let newDist = currentDist + moveCostOf cfg g dir next
          in if newDist <s at2 (Distances g) next
             then (g\<lparr> Distances := put2 (Distances g) next newDist \<rparr>, queue @ [next])
             else (g, queue))"

definition relaxAll :: "Config \<Rightarrow> Grid \<Rightarrow> Position \<Rightarrow> Position list \<Rightarrow> Grid \<times> Position list" where
  "relaxAll cfg g current rest =
     fold (relax cfg current (at2 (Distances g) current)) (Directions cfg) (g, rest)"

text \<open>
  The loop \<open>for len(queue) > 0\<close>. \<open>None\<close> is a loop that does not end.
\<close>

partial_function (option) propagate :: "Config \<Rightarrow> Grid \<Rightarrow> Position list \<Rightarrow> Grid option" where
  "propagate cfg g queue =
     (case queue of
        [] \<Rightarrow> Some g
      | current # rest \<Rightarrow>
          propagate cfg (fst (relaxAll cfg g current rest)) (snd (relaxAll cfg g current rest)))"

declare propagate.simps [code]

definition pickBest ::
  "Grid \<Rightarrow> Position \<Rightarrow> Direction \<Rightarrow> int64 \<times> Direction \<Rightarrow> int64 \<times> Direction"
where
  "pickBest g pos dir b =
     (case b of (bestDist, bestDir) \<Rightarrow>
        let neighbor = stepTo pos dir in
        if IsValidPosition g neighbor
        then (let neighborDist = at2 (Distances g) neighbor
              in if neighborDist <s bestDist then (neighborDist, dir) else (bestDist, bestDir))
        else (bestDist, bestDir))"

definition bestDirection :: "Config \<Rightarrow> Grid \<Rightarrow> Position \<Rightarrow> Direction" where
  "bestDirection cfg g pos =
     snd (fold (pickBest g pos) (Directions cfg) (at2 (Distances g) pos, Direction 0 0))"

definition flowCell :: "Config \<Rightarrow> Position \<Rightarrow> Position \<Rightarrow> Grid \<Rightarrow> Grid" where
  "flowCell cfg gl pos g =
     (if \<not> IsPassable g pos \<or> (pX pos = pX gl \<and> pY pos = pY gl) then g
      else g\<lparr> FlowField := put2 (FlowField g) pos (bestDirection cfg g pos) \<rparr>)"

text \<open>
  \<open>computeFlowField\<close> always returns \<open>nil\<close>; the result is \<open>None\<close> when phase 1 does
  not end, else the error and the navigator after the call.
\<close>

definition resetField :: "Grid \<Rightarrow> Grid" where
  "resetField g = fold resetCell (allPositions g) g"

definition initGoal :: "Position \<Rightarrow> Grid \<Rightarrow> Grid" where
  "initGoal gl g = g\<lparr> Distances := put2 (Distances g) gl 0 \<rparr>"

definition flowPhase :: "Config \<Rightarrow> Position \<Rightarrow> Grid \<Rightarrow> Grid" where
  "flowPhase cfg gl g = fold (flowCell cfg gl) (allPositions g) g"

definition computeFlowField ::
  "FlowFieldNavigator \<Rightarrow> (error option \<times> FlowFieldNavigator) option"
where
  "computeFlowField f =
     (case propagate (config f) (initGoal (goal f) (resetField (grid f))) [goal f] of
        None \<Rightarrow> None
      | Some g \<Rightarrow> Some (None, f\<lparr> grid := flowPhase (config f) (goal f) g \<rparr>))"

definition SetGoal ::
  "FlowFieldNavigator \<Rightarrow> Position \<Rightarrow> (error option \<times> FlowFieldNavigator) option"
where
  "SetGoal f gl =
     (if \<not> IsValidPosition (grid f) gl then Some (Some ErrInvalidPosition, f)
      else if \<not> IsPassable (grid f) gl then Some (Some ErrInvalidGoal, f)
      else computeFlowField (f\<lparr> goal := gl, isGoalSet := True \<rparr>))"

definition GetFlowDirection :: "FlowFieldNavigator \<Rightarrow> Position \<Rightarrow> error + Direction" where
  "GetFlowDirection f pos =
     (if \<not> isGoalSet f then Inl ErrInvalidGoal
      else if \<not> IsValidPosition (grid f) pos then Inl ErrInvalidPosition
      else if pX pos = pX (goal f) \<and> pY pos = pY (goal f) then Inr (Direction 0 0)
      else
        let direction = at2 (FlowField (grid f)) pos
        in if dX direction = 0 \<and> dY direction = 0
              \<and> (pX pos \<noteq> pX (goal f) \<or> pY pos \<noteq> pY (goal f))
           then Inl ErrNoPath
           else Inr direction)"

text \<open>
  Go's \<open>copy(dst, src)\<close> overwrites the first \<open>min(len(dst), len(src))\<close> elements of
  \<open>dst\<close>.
\<close>

definition goCopy :: "'a list \<Rightarrow> 'a list \<Rightarrow> 'a list" where
  "goCopy dst src = take (length dst) src @ drop (length src) dst"

text \<open>
  The loop of \<open>UpdateCosts\<close> over the rows: the width of row \<open>y\<close> is checked, then the
  row is copied, then the loop goes on to the next row.
\<close>

fun copyCosts :: "Grid \<Rightarrow> int64 list list \<Rightarrow> int list \<Rightarrow> error option \<times> Grid" where
  "copyCosts g costs [] = (None, g)"
| "copyCosts g costs (y # ys) =
     (if int (length (costs ! nat y)) \<noteq> Width g then (Some ErrCostWidthMismatch, g)
      else copyCosts
             (g\<lparr> Costs := (Costs g)[nat y := goCopy (Costs g ! nat y) (costs ! nat y)] \<rparr>)
             costs ys)"

definition UpdateCosts ::
  "FlowFieldNavigator \<Rightarrow> int64 list list \<Rightarrow> (error option \<times> FlowFieldNavigator) option"
where
  "UpdateCosts f costs =
     (if int (length costs) \<noteq> Height (grid f) then Some (Some ErrCostHeightMismatch, f)
      else
        case copyCosts (grid f) costs [0..Height (grid f) - 1] of
          (Some err, g) \<Rightarrow> Some (Some err, f\<lparr> grid := g \<rparr>)
        | (None, g) \<Rightarrow>
            let f1 = f\<lparr> grid := g \<rparr> in
            if isGoalSet f1
            then (if \<not> IsPassable (grid f1) (goal f1)
                  then Some (Some ErrInvalidGoal, f1\<lparr> isGoalSet := False \<rparr>)
                  else computeFlowField f1)
            else Some (None, f1))"

definition GetGoal :: "FlowFieldNavigator \<Rightarrow> Position" where
  "GetGoal f = goal f"

section \<open>Auxiliary notions for the proofs\<close>

text \<open>
  The termination measure of the relaxation loop: every distance, shifted into the
  natural numbers, summed over the grid.
\<close>

definition offs :: "int64 \<Rightarrow> nat" where
  "offs d = nat (sint d + 2 ^ 63)"

definition distSum :: "int64 list list \<Rightarrow> nat" where
  "distSum D = sum_list (map (\<lambda>row. sum_list (map offs row)) D)"

definition sameFrame :: "Grid \<Rightarrow> Grid \<Rightarrow> bool" where
  "sameFrame g g' \<longleftrightarrow>
     Width g' = Width g \<and> Height g' = Height g \<and> Costs g' = Costs g \<and>
     FlowField g' = FlowField g \<and> CellTypes g' = CellTypes g"

text \<open>
  \<open>capped\<close>: no recorded distance exceeds the initial \<open>MaxInt32\<close>, and an
  impassable cell still has it.
\<close>

definition capped :: "Grid \<Rightarrow> bool" where
  "capped g \<longleftrightarrow>
     (\<forall>p. IsValidPosition g p \<longrightarrow>
        at2 (Distances g) p \<le>s MaxInt32 \<and>
        (\<not> IsPassable g p \<longrightarrow> at2 (Distances g) p = MaxInt32))"

definition sameButFlow :: "Grid \<Rightarrow> Grid \<Rightarrow> bool" where
  "sameButFlow g g' \<longleftrightarrow>
     Width g' = Width g \<and> Height g' = Height g \<and> Costs g' = Costs g \<and>
     Distances g' = Distances g \<and> CellTypes g' = CellTypes g"

definition startGrid :: "FlowFieldNavigator \<Rightarrow> Grid" where
  "startGrid f = initGoal (goal f) (resetField (grid f))"

text \<open>A 2 by 2 navigator with unit costs and its goal in the corner, used as a concrete input.\<close>

definition smallNavigator :: FlowFieldNavigator where
  "smallNavigator =
     \<lparr> config = EightWayConfig 2 2, grid = NewGrid 2 2, goal = Position 0 0,
       isGoalSet = True \<rparr>"

definition corridor :: FlowFieldNavigator where
  "corridor =
     \<lparr> config = \<lparr> GridWidth = 3, GridHeight = 1, Directions = FourWayDirections,
                   DiagonalCost = 14 / 10, AllowCornerCutting = True \<rparr>,
       grid = (NewGrid 3 1) \<lparr> Costs := [[1, - 1, 1]] \<rparr>,
       goal = Position 0 0, isGoalSet = False \<rparr>"

definition fieldAvoidsBlocked :: "FlowFieldNavigator \<Rightarrow> bool" where
  "fieldAvoidsBlocked f \<longleftrightarrow>
     (\<forall>p. IsValidPosition (grid f) p \<longrightarrow> at2 (FlowField (grid f)) p \<noteq> Direction 0 0 \<longrightarrow>
          IsPassable (grid f) (stepTo p (at2 (FlowField (grid f)) p)))"

definition noLowerNeighbor :: "FlowFieldNavigator \<Rightarrow> Position \<Rightarrow> bool" where
  "noLowerNeighbor f p \<longleftrightarrow>
     (\<forall>dir \<in> set (Directions (config f)).
        IsValidPosition (grid f) (stepTo p dir) \<longrightarrow>
        at2 (Distances (grid f)) p \<le>s at2 (Distances (grid f)) (stepTo p dir))"

definition unreachableGetNoPath :: "FlowFieldNavigator \<Rightarrow> bool" where
  "unreachableGetNoPath f \<longleftrightarrow>
     (\<forall>p. IsPassable (grid f) p \<longrightarrow> p \<noteq> goal f \<longrightarrow> noLowerNeighbor f p \<longrightarrow>
          at2 (FlowField (grid f)) p = Direction 0 0 \<and>
          GetFlowDirection f p = Inl ErrNoPath)"

definition fiveByFive :: FlowFieldNavigator where
  "fiveByFive =
     \<lparr> config = EightWayConfig 5 5, grid = NewGrid 5 5, goal = Position 0 0,
       isGoalSet = False \<rparr>"

datatype GridOp = OpSetObstacle Position | OpSetBuilding Position | OpSetCost Position int64

fun applyOp :: "Grid \<Rightarrow> GridOp \<Rightarrow> Grid" where
  "applyOp g (OpSetObstacle pos) = snd (SetObstacle g pos)"
| "applyOp g (OpSetBuilding pos) = snd (SetBuilding g pos)"
| "applyOp g (OpSetCost pos cost) = snd (SetCost g pos cost)"

definition costMatchesType :: "Grid \<Rightarrow> bool" where
  "costMatchesType g \<longleftrightarrow>
     (\<forall>p. IsValidPosition g p \<longrightarrow>
        (at2 (Costs g) p = - 1) = (at2 (CellTypes g) p = Obstacle \<or> at2 (CellTypes g) p = Building))"

definition blockedIsMarked :: "Grid \<Rightarrow> bool" where
  "blockedIsMarked g \<longleftrightarrow>
     (\<forall>p. IsValidPosition g p \<longrightarrow> at2 (Costs g) p = - 1 \<longrightarrow>
        at2 (CellTypes g) p = Obstacle \<or> at2 (CellTypes g) p = Building)"

definition freshNavigator :: FlowFieldNavigator where
  "freshNavigator =
     \<lparr> config = EightWayConfig 2 2, grid = NewGrid 2 2, goal = Position 0 0,
       isGoalSet = False \<rparr>"


definition maxStepCost :: int64 where
  "maxStepCost = 9223372034707292160"






definition lowered :: "Grid \<Rightarrow> Grid \<Rightarrow> Position list \<Rightarrow> Position list \<Rightarrow> bool" where
  "lowered g0 g q0 q \<longleftrightarrow>
     sameFrame g0 g \<and> set q0 \<subseteq> set q \<and>
     (\<forall>p. IsValidPosition g0 p \<longrightarrow>
        at2 (Distances g) p \<le>s at2 (Distances g0) p \<and>
        (at2 (Distances g) p \<noteq> at2 (Distances g0) p \<longrightarrow> p \<in> set q))"






definition dominated :: "Config \<Rightarrow> Grid \<Rightarrow> Grid \<Rightarrow> bool" where
  "dominated cfg g1 g \<longleftrightarrow>
     Width g = Width g1 \<and> Height g = Height g1 \<and>
     (\<forall>p. IsPassable g p \<longrightarrow>
        IsPassable g1 p \<and>
        (\<forall>dir \<in> set (Directions cfg).
           0 \<le> sint (moveCostOf cfg g1 dir p) \<and>
           sint (moveCostOf cfg g1 dir p) \<le> sint (moveCostOf cfg g dir p) \<and>
           sint (moveCostOf cfg g dir p) \<le> sint maxStepCost))"



section \<open>Basic facts about the two-dimensional arrays\<close>

lemma shaped_replicate [simp]:
  "shaped w h (replicate (nat h) (replicate (nat w) v))"
  by (simp add: shaped_def)

lemma wfGrid_NewGrid [simp]: "wfGrid (NewGrid w h)"
  by (simp add: wfGrid_def NewGrid_def)

lemma shaped_put2 [simp]: "shaped w h (put2 arr pos v) = shaped w h arr"
proof -
  have "\<And>r. r \<in> set (arr[nat (pY pos) := (arr ! nat (pY pos))[nat (pX pos) := v]])
         \<Longrightarrow> \<exists>r' \<in> set arr. length r = length r'"
    by (metis in_set_conv_nth length_list_update nth_list_update_eq nth_list_update_neq)
  moreover have "\<And>r. r \<in> set arr
         \<Longrightarrow> \<exists>r' \<in> set (arr[nat (pY pos) := (arr ! nat (pY pos))[nat (pX pos) := v]]).
               length r = length r'"
    by (metis in_set_conv_nth length_list_update nth_list_update_eq nth_list_update_neq)
  ultimately show ?thesis
    unfolding shaped_def put2_def by (metis length_list_update)
qed

lemma at2_put2_same:
  assumes "shaped w h arr" "0 \<le> pX p" "pX p < w" "0 \<le> pY p" "pY p < h"
  shows "at2 (put2 arr p v) p = v"
proof -
  have y: "nat (pY p) < length arr" using assms by (simp add: shaped_def)
  then have "length (arr ! nat (pY p)) = nat w"
    using assms(1) by (simp add: shaped_def)
  then have x: "nat (pX p) < length (arr ! nat (pY p))" using assms by simp
  show ?thesis using x y by (simp add: at2_def put2_def)
qed

lemma at2_put2_other:
  assumes "q \<noteq> p" "0 \<le> pX p" "0 \<le> pY p" "0 \<le> pX q" "0 \<le> pY q"
  shows "at2 (put2 arr p v) q = at2 arr q"
proof (cases "pY q = pY p")
  case True
  then have "pX q \<noteq> pX p" using assms(1) by (metis Position.expand)
  then have ne: "nat (pX q) \<noteq> nat (pX p)" using assms by simp
  show ?thesis
  proof (cases "nat (pY p) < length arr")
    case True
    then show ?thesis using \<open>pY q = pY p\<close> ne by (simp add: at2_def put2_def)
  next
    case False
    then show ?thesis by (simp add: at2_def put2_def list_update_beyond)
  qed
next
  case False
  then have "nat (pY q) \<noteq> nat (pY p)" using assms by simp
  then show ?thesis by (simp add: at2_def put2_def)
qed

lemma offs_less: "v <s d \<Longrightarrow> offs v < offs d"
  using sint_ge [of v] sint_ge [of d]
  by (simp add: offs_def word_sless_alt)

lemma sum_list_update_less:
  fixes xs :: "nat list"
  assumes "k < length xs" "x < xs ! k"
  shows "sum_list (xs[k := x]) < sum_list xs"
proof -
  have "xs ! k \<le> sum_list xs"
    using assms(1) by (simp add: member_le_sum_list)
  then show ?thesis using assms by (simp add: sum_list_update)
qed

lemma distSum_put2_less:
  assumes "shaped w h D" "0 \<le> pX p" "pX p < w" "0 \<le> pY p" "pY p < h" "v <s at2 D p"
  shows "distSum (put2 D p v) < distSum D"
proof -
  let ?y = "nat (pY p)" and ?x = "nat (pX p)"
  have y: "?y < length D" using assms by (simp add: shaped_def)
  then have "length (D ! ?y) = nat w" using assms(1) by (simp add: shaped_def)
  then have x: "?x < length (D ! ?y)" using assms by simp
  have "sum_list (map offs ((D ! ?y)[?x := v])) < sum_list (map offs (D ! ?y))"
    unfolding map_update
    by (rule sum_list_update_less) (use x assms(6) in \<open>simp_all add: offs_less at2_def\<close>)
  then show ?thesis
    unfolding distSum_def put2_def map_update
    by (intro sum_list_update_less) (use y in simp_all)
qed

lemma sameFrame_refl [simp]: "sameFrame g g"
  by (simp add: sameFrame_def)

lemma sameFrame_trans: "sameFrame g g' \<Longrightarrow> sameFrame g' g'' \<Longrightarrow> sameFrame g g''"
  by (simp add: sameFrame_def)

lemma relax_cases:
  obtains (skip) "relax cfg cur cd dir (g, q) = (g, q)"
  | (push) "IsValidPosition g (stepTo cur dir)" "IsPassable g (stepTo cur dir)"
      "cd + moveCostOf cfg g dir (stepTo cur dir) <s at2 (Distances g) (stepTo cur dir)"
      "relax cfg cur cd dir (g, q) =
         (g\<lparr> Distances := put2 (Distances g) (stepTo cur dir)
                              (cd + moveCostOf cfg g dir (stepTo cur dir)) \<rparr>,
          q @ [stepTo cur dir])"
proof -
  have "relax cfg cur cd dir (g, q) = (g, q) \<or>
        (IsValidPosition g (stepTo cur dir) \<and> IsPassable g (stepTo cur dir) \<and>
         cd + moveCostOf cfg g dir (stepTo cur dir) <s at2 (Distances g) (stepTo cur dir) \<and>
         relax cfg cur cd dir (g, q) =
         (g\<lparr> Distances := put2 (Distances g) (stepTo cur dir)
                              (cd + moveCostOf cfg g dir (stepTo cur dir)) \<rparr>,
          q @ [stepTo cur dir]))"
    by (simp add: relax_def Let_def)
  then show thesis using skip push by blast
qed

lemma relax_step:
  assumes "wfGrid g" "relax cfg cur cd dir (g, q) = (g', q')"
  shows "wfGrid g' \<and> sameFrame g g' \<and>
         ((g' = g \<and> q' = q) \<or> distSum (Distances g') < distSum (Distances g))"
proof (cases rule: relax_cases [of cfg cur cd dir g q])
  case skip
  then show ?thesis using assms by simp
next
  case push
  let ?n = "stepTo cur dir"
  have g': "g' = g\<lparr> Distances := put2 (Distances g) ?n (cd + moveCostOf cfg g dir ?n) \<rparr>"
    using push(4) assms(2) by simp
  have "distSum (Distances g') < distSum (Distances g)"
    unfolding g' using assms(1) push(1,3)
    by (auto simp: wfGrid_def IsValidPosition_def intro: distSum_put2_less)
  moreover have "wfGrid g'" using assms(1) by (simp add: g' wfGrid_def)
  moreover have "sameFrame g g'" by (simp add: g' sameFrame_def)
  ultimately show ?thesis by simp
qed

lemma fold_relax_step:
  assumes "wfGrid g" "fold (relax cfg cur cd) dirs (g, q) = (g', q')"
  shows "wfGrid g' \<and> sameFrame g g' \<and>
         ((g' = g \<and> q' = q) \<or> distSum (Distances g') < distSum (Distances g))"
  using assms
proof (induction dirs arbitrary: g q)
  case Nil
  then show ?case by simp
next
  case (Cons d dirs)
  obtain g1 q1 where s: "relax cfg cur cd d (g, q) = (g1, q1)" by fastforce
  note a = relax_step [OF Cons.prems(1) s]
  have "fold (relax cfg cur cd) dirs (g1, q1) = (g', q')"
    using Cons.prems(2) s by simp
  note b = Cons.IH [OF conjunct1 [OF a] this]
  show ?case using a b by (auto intro: sameFrame_trans)
qed

lemma relaxAll_step:
  assumes "wfGrid g"
  shows "wfGrid (fst (relaxAll cfg g cur rest)) \<and>
         sameFrame g (fst (relaxAll cfg g cur rest)) \<and>
         ((fst (relaxAll cfg g cur rest) = g \<and> snd (relaxAll cfg g cur rest) = rest) \<or>
          distSum (Distances (fst (relaxAll cfg g cur rest))) < distSum (Distances g))"
  using fold_relax_step [OF assms, of cfg cur "at2 (Distances g) cur" "Directions cfg" rest
      "fst (relaxAll cfg g cur rest)" "snd (relaxAll cfg g cur rest)"]
  by (simp add: relaxAll_def)

lemma propagate_rule:
  assumes "wfGrid g" "I g q"
    and step: "\<And>g cur rest. wfGrid g \<Longrightarrow> I g (cur # rest) \<Longrightarrow>
            I (fst (relaxAll cfg g cur rest)) (snd (relaxAll cfg g cur rest))"
  shows "\<exists>g'. propagate cfg g q = Some g' \<and> wfGrid g' \<and> I g' []"
proof -
  define R where
    "R = inv_image (less_than <*lex*> less_than)
           (\<lambda>s :: Grid \<times> Position list. (distSum (Distances (fst s)), length (snd s)))"
  have "wf R" unfolding R_def by (intro wf_inv_image wf_lex_prod wf_less_than)
  then have "wfGrid (fst s) \<Longrightarrow> I (fst s) (snd s) \<Longrightarrow>
      \<exists>g'. propagate cfg (fst s) (snd s) = Some g' \<and> wfGrid g' \<and> I g' []" for s
  proof (induction s rule: wf_induct_rule)
    case (less s)
    obtain g q where s: "s = (g, q)" by fastforce
    show ?case
    proof (cases q)
      case Nil
      then show ?thesis using less.prems s by (simp add: propagate.simps)
    next
      case (Cons cur rest)
      let ?g = "fst (relaxAll cfg g cur rest)" and ?q = "snd (relaxAll cfg g cur rest)"
      have wf: "wfGrid g" using less.prems s by simp
      note a = relaxAll_step [OF wf, of cfg cur rest]
      have "((?g, ?q), s) \<in> R"
        using a Cons s by (auto simp: R_def)
      moreover have "I ?g ?q" using step less.prems Cons s by simp
      ultimately obtain g' where "propagate cfg ?g ?q = Some g' \<and> wfGrid g' \<and> I g' []"
        using less.IH [of "(?g, ?q)"] a by auto
      then show ?thesis using Cons s by (subst propagate.simps) simp
    qed
  qed
  from this [of "(g, q)"] assms(1,2) show ?thesis by simp
qed

lemma shaped_ext:
  assumes "shaped w h A" "shaped w h B"
    and "\<And>p. 0 \<le> pX p \<Longrightarrow> pX p < w \<Longrightarrow> 0 \<le> pY p \<Longrightarrow> pY p < h \<Longrightarrow> at2 A p = at2 B p"
  shows "A = B"
proof (rule nth_equalityI)
  show "length A = length B" using assms(1,2) by (simp add: shaped_def)
next
  fix j assume j: "j < length A"
  then have jh: "int j < h" using assms(1) by (simp add: shaped_def)
  have la: "length (A ! j) = nat w" using assms(1) j by (simp add: shaped_def)
  have lb: "length (B ! j) = nat w" using assms(1,2) j by (simp add: shaped_def)
  show "A ! j = B ! j"
  proof (rule nth_equalityI)
    show "length (A ! j) = length (B ! j)" using la lb by simp
  next
    fix i assume "i < length (A ! j)"
    then have "int i < w" using la by simp
    then show "A ! j ! i = B ! j ! i"
      using assms(3) [of "Position (int i) (int j)"] jh by (simp add: at2_def)
  qed
qed

lemma at2_replicate:
  "0 \<le> pX p \<Longrightarrow> pX p < w \<Longrightarrow> 0 \<le> pY p \<Longrightarrow> pY p < h \<Longrightarrow>
   at2 (replicate (nat h) (replicate (nat w) v)) p = v"
  by (simp add: at2_def)

lemma set_allPositions: "set (allPositions g) = {p. IsValidPosition g p}"
proof -
  have "p \<in> set (allPositions g) \<longleftrightarrow> IsValidPosition g p" for p
  proof (cases p)
    case (Position x y)
    have "p \<in> set (allPositions g) \<longleftrightarrow> (\<exists>y' \<in> {0..Height g - 1}. \<exists>x' \<in> {0..Width g - 1}. p = Position x' y')"
      by (auto simp: allPositions_def)
    also have "\<dots> \<longleftrightarrow> (y \<in> {0..Height g - 1} \<and> x \<in> {0..Width g - 1})"
      using Position by auto
    also have "\<dots> \<longleftrightarrow> IsValidPosition g p"
      using Position by (auto simp: IsValidPosition_def)
    finally show ?thesis .
  qed
  then show ?thesis by blast
qed

lemma resetCell_frame:
  "Width (resetCell p g) = Width g" "Height (resetCell p g) = Height g"
  "Costs (resetCell p g) = Costs g" "CellTypes (resetCell p g) = CellTypes g"
  "wfGrid (resetCell p g) = wfGrid g"
  "Distances (resetCell p g) = put2 (Distances g) p MaxInt32"
  "FlowField (resetCell p g) = put2 (FlowField g) p (Direction 0 0)"
  by (simp_all add: resetCell_def wfGrid_def)

lemma fold_resetCell_frame:
  "Width (fold resetCell ps g) = Width g \<and> Height (fold resetCell ps g) = Height g \<and>
   Costs (fold resetCell ps g) = Costs g \<and> CellTypes (fold resetCell ps g) = CellTypes g \<and>
   (wfGrid g \<longrightarrow> wfGrid (fold resetCell ps g))"
proof (induction ps rule: rev_induct)
  case Nil
  then show ?case by simp
next
  case (snoc p ps)
  then show ?case by (simp add: resetCell_frame)
qed

lemma fold_resetCell_at:
  assumes "wfGrid g" "\<forall>p \<in> set ps. IsValidPosition g p" "IsValidPosition g q"
  shows "at2 (Distances (fold resetCell ps g)) q =
           (if q \<in> set ps then MaxInt32 else at2 (Distances g) q) \<and>
         at2 (FlowField (fold resetCell ps g)) q =
           (if q \<in> set ps then Direction 0 0 else at2 (FlowField g) q)"
  using assms
proof (induction ps arbitrary: g rule: rev_induct)
  case Nil
  then show ?case by simp
next
  case (snoc p ps)
  let ?g = "fold resetCell ps g"
  have ih: "at2 (Distances ?g) q = (if q \<in> set ps then MaxInt32 else at2 (Distances g) q) \<and>
            at2 (FlowField ?g) q = (if q \<in> set ps then Direction 0 0 else at2 (FlowField g) q)"
    using snoc by simp
  have wf: "wfGrid ?g" "Width ?g = Width g" "Height ?g = Height g"
    using fold_resetCell_frame [of ps g] snoc.prems(1) by simp_all
  have p: "IsValidPosition g p" using snoc.prems(2) by simp
  show ?case
  proof (cases "q = p")
    case True
    have "at2 (put2 (Distances ?g) p MaxInt32) p = MaxInt32"
      by (rule at2_put2_same [of "Width g" "Height g"])
         (use wf p in \<open>simp_all add: wfGrid_def IsValidPosition_def\<close>)
    moreover have "at2 (put2 (FlowField ?g) p (Direction 0 0)) p = Direction 0 0"
      by (rule at2_put2_same [of "Width g" "Height g"])
         (use wf p in \<open>simp_all add: wfGrid_def IsValidPosition_def\<close>)
    ultimately show ?thesis using True by (simp add: resetCell_frame)
  next
    case False
    then show ?thesis using ih p snoc.prems(3)
      by (simp add: resetCell_frame IsValidPosition_def at2_put2_other)
  qed
qed

lemma resetField_eq:
  assumes "wfGrid g"
  shows "resetField g =
           g\<lparr> Distances := replicate (nat (Height g)) (replicate (nat (Width g)) MaxInt32),
              FlowField := replicate (nat (Height g)) (replicate (nat (Width g)) (Direction 0 0)) \<rparr>"
proof -
  let ?g = "resetField g"
  note fr = fold_resetCell_frame [of "allPositions g" g, folded resetField_def]
  have wf: "wfGrid ?g" using fr assms by simp
  have at: "at2 (Distances ?g) q = MaxInt32 \<and> at2 (FlowField ?g) q = Direction 0 0"
    if "IsValidPosition g q" for q
    using fold_resetCell_at [OF assms _ that, of "allPositions g"] that
    by (simp add: set_allPositions resetField_def)
  have "Distances ?g = replicate (nat (Height g)) (replicate (nat (Width g)) MaxInt32)"
    by (rule shaped_ext [of "Width g" "Height g"])
       (use wf fr at in \<open>auto simp: wfGrid_def at2_replicate IsValidPosition_def\<close>)
  moreover have "FlowField ?g =
      replicate (nat (Height g)) (replicate (nat (Width g)) (Direction 0 0))"
    by (rule shaped_ext [of "Width g" "Height g"])
       (use wf fr at in \<open>auto simp: wfGrid_def at2_replicate IsValidPosition_def\<close>)
  ultimately show ?thesis using fr by (intro Grid.equality) simp_all
qed

lemma fold_relax_preserves:
  assumes "wfGrid g" "P g q"
    and step: "\<And>g q dir. wfGrid g \<Longrightarrow> P g q \<Longrightarrow> dir \<in> set dirs \<Longrightarrow>
       IsValidPosition g (stepTo cur dir) \<Longrightarrow> IsPassable g (stepTo cur dir) \<Longrightarrow>
       cd + moveCostOf cfg g dir (stepTo cur dir) <s at2 (Distances g) (stepTo cur dir) \<Longrightarrow>
       P (g\<lparr> Distances := put2 (Distances g) (stepTo cur dir)
                               (cd + moveCostOf cfg g dir (stepTo cur dir)) \<rparr>)
         (q @ [stepTo cur dir])"
  shows "P (fst (fold (relax cfg cur cd) dirs (g, q))) (snd (fold (relax cfg cur cd) dirs (g, q)))"
  using assms
proof (induction dirs arbitrary: g q)
  case Nil
  then show ?case by simp
next
  case (Cons d dirs)
  obtain g1 q1 where s: "relax cfg cur cd d (g, q) = (g1, q1)" by fastforce
  have wf1: "wfGrid g1" using relax_step [OF Cons.prems(1) s] by simp
  have P1: "P g1 q1"
  proof (cases rule: relax_cases [of cfg cur cd d g q])
    case skip
    then show ?thesis using s Cons.prems(2) by simp
  next
    case push
    then show ?thesis using s Cons.prems(3) [OF Cons.prems(1,2), of d] by simp
  qed
  have "P (fst (fold (relax cfg cur cd) dirs (g1, q1))) (snd (fold (relax cfg cur cd) dirs (g1, q1)))"
    by (rule Cons.IH [OF wf1 P1]) (use Cons.prems(3) in simp)
  then show ?case using s by simp
qed

lemma IsPassable_Distances_update [simp]:
  "IsPassable (g\<lparr> Distances := D \<rparr>) p = IsPassable g p"
  "IsValidPosition (g\<lparr> Distances := D \<rparr>) p = IsValidPosition g p"
  by (simp_all add: IsPassable_def IsValidPosition_def)

lemma at2_put2_valid:
  assumes "shaped (Width g) (Height g) arr" "IsValidPosition g p" "IsValidPosition g q"
  shows "at2 (put2 arr p v) q = (if q = p then v else at2 arr q)"
  using assms at2_put2_same [of "Width g" "Height g" arr p v] at2_put2_other [of q p arr v]
  by (auto simp: IsValidPosition_def)

lemma capped_lower:
  assumes "wfGrid g" "capped g" "IsValidPosition g n" "IsPassable g n"
    "v <s at2 (Distances g) n"
  shows "capped (g\<lparr> Distances := put2 (Distances g) n v \<rparr>)"
proof -
  have sh: "shaped (Width g) (Height g) (Distances g)" using assms(1) by (simp add: wfGrid_def)
  have "v \<le>s MaxInt32"
    using assms(2,3,5) by (auto simp: capped_def word_sless_alt word_sle_eq)
  then show ?thesis
    using assms(2,3,4) by (auto simp: capped_def at2_put2_valid [OF sh])
qed

lemma relaxAll_capped:
  assumes "wfGrid g" "capped g"
  shows "capped (fst (relaxAll cfg g cur rest))"
  unfolding relaxAll_def
  by (rule fold_relax_preserves [where P = "\<lambda>g q. capped g", OF assms])
     (rule capped_lower)

lemma sameFrame_relaxAll: "wfGrid g \<Longrightarrow> sameFrame g (fst (relaxAll cfg g cur rest))"
  using relaxAll_step by blast

lemma propagate_capped:
  assumes "wfGrid g" "capped g"
  shows "\<exists>g'. propagate cfg g q = Some g' \<and> wfGrid g' \<and> capped g' \<and> sameFrame g g'"
proof -
  have "\<exists>g'. propagate cfg g q = Some g' \<and> wfGrid g' \<and> (capped g' \<and> sameFrame g g')"
    by (rule propagate_rule [where I = "\<lambda>g' q. capped g' \<and> sameFrame g g'"])
       (use assms in \<open>auto intro: relaxAll_capped sameFrame_trans sameFrame_relaxAll\<close>)
  then show ?thesis by simp
qed

lemma pickBest_fold:
  assumes "fold (pickBest g pos) dirs (b0, d0) = (b, d)"
  shows "(b = b0 \<and> d = d0) \<or>
         (d \<in> set dirs \<and> IsValidPosition g (stepTo pos d) \<and>
          b = at2 (Distances g) (stepTo pos d) \<and> b <s b0)"
  using assms
proof (induction dirs arbitrary: b0 d0)
  case Nil
  then show ?case by simp
next
  case (Cons x dirs)
  obtain b1 d1 where s: "pickBest g pos x (b0, d0) = (b1, d1)" by fastforce
  then have one: "(b1 = b0 \<and> d1 = d0) \<or>
      (d1 = x \<and> IsValidPosition g (stepTo pos x) \<and>
       b1 = at2 (Distances g) (stepTo pos x) \<and> b1 <s b0)"
    by (auto simp: pickBest_def Let_def split: if_splits)
  have "fold (pickBest g pos) dirs (b1, d1) = (b, d)" using Cons.prems s by simp
  from Cons.IH [OF this] one show ?case
    by (auto simp: word_sless_alt)
qed

lemma pickBest_fold_none:
  assumes "\<forall>dir \<in> set dirs. IsValidPosition g (stepTo pos dir) \<longrightarrow>
             \<not> at2 (Distances g) (stepTo pos dir) <s b0"
  shows "fold (pickBest g pos) dirs (b0, d0) = (b0, d0)"
  using assms by (induction dirs) (simp_all add: pickBest_def Let_def)

lemma bestDirection_cases:
  "bestDirection cfg g pos = Direction 0 0 \<or>
   (bestDirection cfg g pos \<in> set (Directions cfg) \<and>
    IsValidPosition g (stepTo pos (bestDirection cfg g pos)) \<and>
    at2 (Distances g) (stepTo pos (bestDirection cfg g pos)) <s at2 (Distances g) pos)"
proof -
  obtain b d where s: "fold (pickBest g pos) (Directions cfg)
      (at2 (Distances g) pos, Direction 0 0) = (b, d)" by fastforce
  from pickBest_fold [OF s] s show ?thesis by (auto simp: bestDirection_def)
qed

lemma bestDirection_none:
  assumes "\<forall>dir \<in> set (Directions cfg). IsValidPosition g (stepTo pos dir) \<longrightarrow>
             at2 (Distances g) pos \<le>s at2 (Distances g) (stepTo pos dir)"
  shows "bestDirection cfg g pos = Direction 0 0"
proof -
  have "fold (pickBest g pos) (Directions cfg) (at2 (Distances g) pos, Direction 0 0)
          = (at2 (Distances g) pos, Direction 0 0)"
    by (rule pickBest_fold_none) (use assms in \<open>auto simp: word_sless_alt word_sle_eq\<close>)
  then show ?thesis by (simp add: bestDirection_def)
qed

lemma sameButFlow_reads:
  assumes "sameButFlow g g'"
  shows "IsValidPosition g' p = IsValidPosition g p" "IsPassable g' p = IsPassable g p"
    "bestDirection cfg g' p = bestDirection cfg g p"
proof -
  show v: "IsValidPosition g' p = IsValidPosition g p" for p
    using assms by (simp add: sameButFlow_def IsValidPosition_def)
  show "IsPassable g' p = IsPassable g p"
    using assms v by (simp add: sameButFlow_def IsPassable_def)
  have "pickBest g' p = pickBest g p"
    using assms v by (auto simp: pickBest_def sameButFlow_def fun_eq_iff Let_def)
  then show "bestDirection cfg g' p = bestDirection cfg g p"
    using assms by (simp add: bestDirection_def sameButFlow_def)
qed

lemma flowCell_frame:
  "sameButFlow g (flowCell cfg gl p g)" "wfGrid (flowCell cfg gl p g) = wfGrid g"
  by (simp_all add: flowCell_def sameButFlow_def wfGrid_def)

lemma fold_flowCell_frame:
  "sameButFlow g (fold (flowCell cfg gl) ps g) \<and>
   wfGrid (fold (flowCell cfg gl) ps g) = wfGrid g"
proof (induction ps rule: rev_induct)
  case Nil
  then show ?case by (simp add: sameButFlow_def)
next
  case (snoc p ps)
  then show ?case
    using flowCell_frame [where g = "fold (flowCell cfg gl) ps g" and cfg = cfg and gl = gl and p = p]
    by (auto simp: sameButFlow_def)
qed

lemma fold_flowCell_at:
  assumes "wfGrid g" "\<forall>p \<in> set ps. IsValidPosition g p" "IsValidPosition g q"
  shows "at2 (FlowField (fold (flowCell cfg gl) ps g)) q =
           (if q \<in> set ps \<and> IsPassable g q \<and> q \<noteq> gl then bestDirection cfg g q
            else at2 (FlowField g) q)"
  using assms
proof (induction ps rule: rev_induct)
  case Nil
  then show ?case by simp
next
  case (snoc p ps)
  let ?g = "fold (flowCell cfg gl) ps g"
  have ih: "at2 (FlowField ?g) q =
      (if q \<in> set ps \<and> IsPassable g q \<and> q \<noteq> gl then bestDirection cfg g q
       else at2 (FlowField g) q)"
    using snoc by simp
  note fr = fold_flowCell_frame [of g cfg gl ps]
  have sb: "sameButFlow g ?g" and wf: "wfGrid ?g" using fr snoc.prems(1) by simp_all
  have sh: "shaped (Width g) (Height g) (FlowField ?g)"
    using wf sb by (simp add: wfGrid_def sameButFlow_def)
  have p: "IsValidPosition g p" using snoc.prems(2) by simp
  have eqgl: "(pX p = pX gl \<and> pY p = pY gl) = (p = gl)" by (auto intro: Position.expand)
  have "at2 (FlowField (flowCell cfg gl p ?g)) q =
      (if q = p \<and> IsPassable g p \<and> p \<noteq> gl then bestDirection cfg g p
       else at2 (FlowField ?g) q)"
    using at2_put2_valid [OF sh p snoc.prems(3)] eqgl
    by (cases "IsPassable g p \<and> p \<noteq> gl") (auto simp: flowCell_def sameButFlow_reads [OF sb])
  then show ?case using ih by auto
qed

lemma flowPhase_props:
  assumes "wfGrid g"
  shows "sameButFlow g (flowPhase cfg gl g)" "wfGrid (flowPhase cfg gl g)"
    "IsValidPosition g q \<Longrightarrow> at2 (FlowField (flowPhase cfg gl g)) q =
       (if IsPassable g q \<and> q \<noteq> gl then bestDirection cfg g q else at2 (FlowField g) q)"
proof -
  show "sameButFlow g (flowPhase cfg gl g)" "wfGrid (flowPhase cfg gl g)"
    using fold_flowCell_frame [of g cfg gl "allPositions g"] assms
    by (simp_all add: flowPhase_def)
  show "at2 (FlowField (flowPhase cfg gl g)) q =
       (if IsPassable g q \<and> q \<noteq> gl then bestDirection cfg g q else at2 (FlowField g) q)"
    if "IsValidPosition g q"
    using fold_flowCell_at [OF assms _ that, of "allPositions g" cfg gl] that
    by (simp add: flowPhase_def set_allPositions)
qed

lemma startGrid_props:
  assumes "wfGrid (grid f)"
  shows "wfGrid (startGrid f)"
    "Width (startGrid f) = Width (grid f)" "Height (startGrid f) = Height (grid f)"
    "Costs (startGrid f) = Costs (grid f)" "CellTypes (startGrid f) = CellTypes (grid f)"
    "FlowField (startGrid f) =
       replicate (nat (Height (grid f))) (replicate (nat (Width (grid f))) (Direction 0 0))"
    "Distances (startGrid f) =
       put2 (replicate (nat (Height (grid f))) (replicate (nat (Width (grid f))) MaxInt32))
         (goal f) 0"
  using assms
  by (simp_all add: startGrid_def initGoal_def resetField_eq wfGrid_def)

lemma startGrid_reads:
  assumes "wfGrid (grid f)"
  shows "IsValidPosition (startGrid f) p = IsValidPosition (grid f) p"
    "IsPassable (startGrid f) p = IsPassable (grid f) p"
  using startGrid_props [OF assms] by (simp_all add: IsValidPosition_def IsPassable_def)

lemma startGrid_dist:
  assumes "wfGrid (grid f)" "IsValidPosition (grid f) (goal f)" "IsValidPosition (grid f) p"
  shows "at2 (Distances (startGrid f)) p = (if p = goal f then 0 else MaxInt32)"
proof -
  have "shaped (Width (grid f)) (Height (grid f))
      (replicate (nat (Height (grid f))) (replicate (nat (Width (grid f))) MaxInt32))"
    by simp
  from at2_put2_valid [OF this assms(2,3)] assms(3) show ?thesis
    by (simp add: startGrid_props [OF assms(1)] at2_replicate IsValidPosition_def)
qed

lemma MaxInt32_sint [simp]: "sint MaxInt32 = 2147483647"
  by (simp add: MaxInt32_def)

lemma startGrid_capped:
  assumes "wfGrid (grid f)" "IsPassable (grid f) (goal f)"
  shows "capped (startGrid f)"
proof -
  have v: "IsValidPosition (grid f) (goal f)"
    using assms(2) by (auto simp: IsPassable_def split: if_splits)
  show ?thesis
    using assms(2)
    by (auto simp: capped_def startGrid_reads [OF assms(1)] startGrid_dist [OF assms(1) v]
        word_sle_eq)
qed

lemma computeFlowField_runs:
  assumes "wfGrid (grid f)" "IsPassable (grid f) (goal f)"
  obtains g2 where
    "propagate (config f) (startGrid f) [goal f] = Some g2"
    "computeFlowField f = Some (None, f\<lparr> grid := flowPhase (config f) (goal f) g2 \<rparr>)"
    "wfGrid g2" "capped g2" "sameFrame (startGrid f) g2"
proof -
  from propagate_capped [OF startGrid_props(1) [OF assms(1)] startGrid_capped [OF assms],
      of "config f" "[goal f]"]
  obtain g2 where g2: "propagate (config f) (startGrid f) [goal f] = Some g2"
    "wfGrid g2" "capped g2" "sameFrame (startGrid f) g2" by blast
  then have "computeFlowField f = Some (None, f\<lparr> grid := flowPhase (config f) (goal f) g2 \<rparr>)"
    by (simp add: computeFlowField_def startGrid_def)
  then show thesis using g2 that by blast
qed


section \<open>Termination of the recomputation\<close>



lemma IsPassable_valid: "IsPassable g p \<Longrightarrow> IsValidPosition g p"
  by (auto simp: IsPassable_def split: if_splits)

lemma computeFlowField_flow:
  assumes "wfGrid (grid f)" "IsPassable (grid f) (goal f)"
    "computeFlowField f = Some (r, f')"
  obtains g2 where
    "propagate (config f) (startGrid f) [goal f] = Some g2"
    "wfGrid g2" "capped g2" "sameFrame (startGrid f) g2"
    "r = None" "f' = f\<lparr> grid := flowPhase (config f) (goal f) g2 \<rparr>"
    "sameButFlow g2 (grid f')" "wfGrid (grid f')"
    "\<And>q. IsValidPosition (grid f') q \<Longrightarrow> at2 (FlowField (grid f')) q =
       (if IsPassable (grid f') q \<and> q \<noteq> goal f then bestDirection (config f) (grid f') q
        else Direction 0 0)"
proof -
  from computeFlowField_runs [OF assms(1,2)] obtain g2 where g2:
    "propagate (config f) (startGrid f) [goal f] = Some g2"
    "computeFlowField f = Some (None, f\<lparr> grid := flowPhase (config f) (goal f) g2 \<rparr>)"
    "wfGrid g2" "capped g2" "sameFrame (startGrid f) g2" by blast
  let ?g3 = "flowPhase (config f) (goal f) g2"
  have r: "r = None" and f': "f' = f\<lparr> grid := ?g3 \<rparr>" using g2(2) assms(3) by simp_all
  note fp = flowPhase_props [OF g2(3), where cfg = "config f" and gl = "goal f"]
  have sb: "sameButFlow g2 (grid f')" and wf3: "wfGrid (grid f')" using fp f' by simp_all
  have ff: "FlowField g2 = replicate (nat (Height (grid f))) (replicate (nat (Width (grid f))) (Direction 0 0))"
    using g2(5) startGrid_props [OF assms(1)] by (simp add: sameFrame_def)
  have dims: "Width g2 = Width (grid f)" "Height g2 = Height (grid f)"
    using g2(5) startGrid_props [OF assms(1)] by (simp_all add: sameFrame_def)
  have "at2 (FlowField (grid f')) q =
       (if IsPassable (grid f') q \<and> q \<noteq> goal f then bestDirection (config f) (grid f') q
        else Direction 0 0)" if "IsValidPosition (grid f') q" for q
  proof -
    have v: "IsValidPosition g2 q" using that sameButFlow_reads(1) [OF sb] by simp
    then have "at2 (FlowField g2) q = Direction 0 0"
      unfolding ff using dims by (intro at2_replicate) (simp_all add: IsValidPosition_def)
    then show ?thesis
      using fp(3) [OF v] f' sameButFlow_reads [OF sb] by simp
  qed
  then show thesis using that g2 r f' sb wf3 by blast
qed

lemma computeFlowField_avoids:
  assumes "wfGrid (grid f)" "IsPassable (grid f) (goal f)"
    "computeFlowField f = Some (r, f')"
  shows "fieldAvoidsBlocked f'"
proof -
  from computeFlowField_flow [OF assms] obtain g2 where g2:
    "capped g2" "sameButFlow g2 (grid f')" 
    "\<And>q. IsValidPosition (grid f') q \<Longrightarrow> at2 (FlowField (grid f')) q =
       (if IsPassable (grid f') q \<and> q \<noteq> goal f then bestDirection (config f) (grid f') q
        else Direction 0 0)" by blast
  let ?g = "grid f'"
  have D: "Distances ?g = Distances g2" using g2(2) by (simp add: sameButFlow_def)
  note rd = sameButFlow_reads [OF g2(2)]
  have "IsPassable ?g (stepTo p (at2 (FlowField ?g) p))"
    if v: "IsValidPosition ?g p" and nz: "at2 (FlowField ?g) p \<noteq> Direction 0 0" for p
  proof -
    let ?d = "bestDirection (config f) ?g p"
    have d: "at2 (FlowField ?g) p = ?d" using g2(3) [OF v] nz by (simp split: if_splits)
    with nz bestDirection_cases [of "config f" ?g p]
    have n: "IsValidPosition ?g (stepTo p ?d)"
      and lt: "at2 (Distances ?g) (stepTo p ?d) <s at2 (Distances ?g) p" by auto
    have "at2 (Distances g2) p \<le>s MaxInt32" using g2(1) v rd by (simp add: capped_def)
    then have "at2 (Distances g2) (stepTo p ?d) \<noteq> MaxInt32"
      using lt D by (auto simp: word_sless_alt word_sle_eq)
    then have "IsPassable g2 (stepTo p ?d)"
      using g2(1) n rd by (auto simp: capped_def)
    then show ?thesis using d rd by simp
  qed
  then show ?thesis by (simp add: fieldAvoidsBlocked_def)
qed

lemma computeFlowField_noPath:
  assumes "wfGrid (grid f)" "IsPassable (grid f) (goal f)" "isGoalSet f"
    "computeFlowField f = Some (r, f')"
  shows "unreachableGetNoPath f'"
proof -
  from computeFlowField_flow [OF assms(1,2,4)] obtain g2 where g2:
    "f' = f\<lparr> grid := flowPhase (config f) (goal f) g2 \<rparr>"
    "\<And>q. IsValidPosition (grid f') q \<Longrightarrow> at2 (FlowField (grid f')) q =
       (if IsPassable (grid f') q \<and> q \<noteq> goal f then bestDirection (config f) (grid f') q
        else Direction 0 0)" by blast
  have same: "goal f' = goal f" "config f' = config f" "isGoalSet f'"
    using g2(1) assms(3) by simp_all
  have "at2 (FlowField (grid f')) p = Direction 0 0 \<and> GetFlowDirection f' p = Inl ErrNoPath"
    if ps: "IsPassable (grid f') p" and ne: "p \<noteq> goal f'" and nl: "noLowerNeighbor f' p" for p
  proof -
    have v: "IsValidPosition (grid f') p" using ps by (rule IsPassable_valid)
    have "bestDirection (config f) (grid f') p = Direction 0 0"
      by (rule bestDirection_none) (use nl same in \<open>simp add: noLowerNeighbor_def\<close>)
    then have z: "at2 (FlowField (grid f')) p = Direction 0 0"
      using g2(2) [OF v] by simp
    have "\<not> (pX p = pX (goal f') \<and> pY p = pY (goal f'))"
      using ne by (auto intro: Position.expand)
    then show ?thesis using z v same by (auto simp: GetFlowDirection_def)
  qed
  then show ?thesis by (simp add: unreachableGetNoPath_def)
qed

lemma length_goCopy [simp]: "length (goCopy dst src) = length dst"
  by (simp add: goCopy_def)


lemma shaped_update_goCopy: "shaped w h arr \<Longrightarrow> shaped w h (arr[i := goCopy (arr ! i) src])"
proof (cases "i < length arr")
  case True
  assume "shaped w h arr"
  then show ?thesis
    using True set_update_subset_insert [of arr i "goCopy (arr ! i) src"]
    by (auto simp: shaped_def)
next
  case False
  assume "shaped w h arr"
  then show ?thesis using False by (simp add: list_update_beyond)
qed

lemma copyCosts_frame:
  assumes "copyCosts g costs ys = (e, g')"
  shows "Width g' = Width g \<and> Height g' = Height g \<and> FlowField g' = FlowField g \<and>
         Distances g' = Distances g \<and> CellTypes g' = CellTypes g \<and>
         (e = None \<or> e = Some ErrCostWidthMismatch) \<and> (wfGrid g \<longrightarrow> wfGrid g')"
  using assms
proof (induction g costs ys rule: copyCosts.induct)
  case (1 g costs)
  then show ?case by simp
next
  case (2 g costs y ys)
  show ?case
  proof (cases "int (length (costs ! nat y)) \<noteq> Width g")
    case True
    then show ?thesis using "2.prems" by auto
  next
    case False
    let ?g = "g\<lparr> Costs := (Costs g)[nat y := goCopy (Costs g ! nat y) (costs ! nat y)] \<rparr>"
    have "copyCosts ?g costs ys = (e, g')" using "2.prems" False by simp
    from "2.IH" [OF False this] show ?thesis
      by (auto simp: wfGrid_def shaped_update_goCopy)
  qed
qed



lemma SetGoal_success:
  assumes "SetGoal f gl = Some (None, f')"
  shows "IsPassable (grid f) gl \<and>
         computeFlowField (f\<lparr> goal := gl, isGoalSet := True \<rparr>) = Some (None, f')"
  using assms by (auto simp: SetGoal_def split: if_splits)

lemma UpdateCosts_success:
  assumes "wfGrid (grid f)" "isGoalSet f" "UpdateCosts f costs = Some (None, f')"
  shows "\<exists>g. copyCosts (grid f) costs [0..Height (grid f) - 1] = (None, g) \<and> wfGrid g \<and>
             IsPassable g (goal f) \<and> computeFlowField (f\<lparr> grid := g \<rparr>) = Some (None, f')"
proof -
  have h: "int (length costs) = Height (grid f)"
    using assms(3) by (auto simp: UpdateCosts_def split: if_splits)
  obtain e g where r: "copyCosts (grid f) costs [0..Height (grid f) - 1] = (e, g)" by fastforce
  have e: "e = None" using assms(3) h r by (cases e) (auto simp: UpdateCosts_def)
  have wf: "wfGrid g" using copyCosts_frame [OF r] assms(1) by simp
  have "IsPassable g (goal f) \<and> computeFlowField (f\<lparr> grid := g \<rparr>) = Some (None, f')"
    using assms(2,3) h r e by (auto simp: UpdateCosts_def Let_def split: if_splits)
  then show ?thesis using r e wf by auto
qed

lemma recomputed_field:
  assumes "wfGrid (grid f)"
    and "SetGoal f gl = Some (None, f') \<or> (isGoalSet f \<and> UpdateCosts f costs = Some (None, f'))"
  shows "fieldAvoidsBlocked f' \<and> unreachableGetNoPath f'"
  using assms(2)
proof
  assume "SetGoal f gl = Some (None, f')"
  note s = SetGoal_success [OF this]
  let ?f = "f\<lparr> goal := gl, isGoalSet := True \<rparr>"
  have "wfGrid (grid ?f)" "IsPassable (grid ?f) (goal ?f)" "isGoalSet ?f"
    using assms(1) s by simp_all
  then show ?thesis
    using s computeFlowField_avoids [of ?f None f'] computeFlowField_noPath [of ?f None f']
    by blast
next
  assume a: "isGoalSet f \<and> UpdateCosts f costs = Some (None, f')"
  from UpdateCosts_success [OF assms(1) conjunct1 [OF a] conjunct2 [OF a]]
  obtain g where g: "wfGrid g" "IsPassable g (goal f)"
    "computeFlowField (f\<lparr> grid := g \<rparr>) = Some (None, f')" by blast
  let ?f = "f\<lparr> grid := g \<rparr>"
  have "wfGrid (grid ?f)" "IsPassable (grid ?f) (goal ?f)" "isGoalSet ?f"
    using g a by simp_all
  then show ?thesis
    using g(3) computeFlowField_avoids [of ?f None f'] computeFlowField_noPath [of ?f None f']
    by blast
qed

section \<open>Blocked and unreachable cells\<close>

text \<open>
  Claim C3. After a successful recomputation (a successful \<open>SetGoal\<close>, or a
  successful \<open>UpdateCosts\<close> while a goal is set), no stored flow direction other
  than (0,0) leads to an impassable cell; and a passable cell other than the goal, none of
  whose in-bounds neighbours has a smaller distance, has flow direction (0,0) and
  \<open>GetFlowDirection\<close> answers \<open>ErrNoPath\<close> for it.
\<close>

theorem flow_never_enters_blocked_cells:
  assumes "wfGrid (grid f)"
    and "SetGoal f gl = Some (None, f') \<or> (isGoalSet f \<and> UpdateCosts f costs = Some (None, f'))"
  shows "(\<forall>p. IsValidPosition (grid f') p \<longrightarrow> at2 (FlowField (grid f')) p \<noteq> Direction 0 0 \<longrightarrow>
             IsPassable (grid f') (stepTo p (at2 (FlowField (grid f')) p))) \<and>
         (\<forall>p. IsPassable (grid f') p \<longrightarrow> p \<noteq> goal f' \<longrightarrow> noLowerNeighbor f' p \<longrightarrow>
             at2 (FlowField (grid f')) p = Direction 0 0 \<and>
             GetFlowDirection f' p = Inl ErrNoPath)"
  using recomputed_field [OF assms]
  unfolding fieldAvoidsBlocked_def unreachableGetNoPath_def .

theorem flow_never_enters_blocked_cells_witness:
  "wfGrid (grid corridor) \<and>
   (\<exists>f'. SetGoal corridor (Position 0 0) = Some (None, f') \<and>
         IsPassable (grid f') (Position 2 0) \<and> Position 2 0 \<noteq> goal f' \<and>
         noLowerNeighbor f' (Position 2 0) \<and>
         at2 (FlowField (grid f')) (Position 2 0) = Direction 0 0 \<and>
         GetFlowDirection f' (Position 2 0) = Inl ErrNoPath)"
proof -
  define f' where "f' = snd (the (SetGoal corridor (Position 0 0)))"
  have wf: "wfGrid (grid corridor)"
    by (simp add: corridor_def wfGrid_def shaped_def NewGrid_def)
  have run: "SetGoal corridor (Position 0 0) = Some (None, f')"
    unfolding f'_def by code_simp
  have a: "IsPassable (grid f') (Position 2 0)" unfolding f'_def by code_simp
  have b: "Position 2 0 \<noteq> goal f'" unfolding f'_def by code_simp
  have c: "noLowerNeighbor f' (Position 2 0)" unfolding f'_def by code_simp
  from flow_never_enters_blocked_cells [OF wf disjI1 [OF run]] a b c
  have "at2 (FlowField (grid f')) (Position 2 0) = Direction 0 0 \<and>
        GetFlowDirection f' (Position 2 0) = Inl ErrNoPath" by blast
  then show ?thesis using wf run a b c by blast
qed

lemma five_by_five_new: "NewFlowFieldNavigator (EightWayConfig 5 5) = Inr fiveByFive"
  by (simp add: NewFlowFieldNavigator_def Validate_def EightWayConfig_def fiveByFive_def
      EightWayDirections_def)

lemma five_by_five_distances:
  "map_option (\<lambda>r. (fst r, Distances (grid (snd r)))) (SetGoal fiveByFive (Position 2 2)) =
     Some (None, [[2, 2, 2, 2, 2], [2, 1, 1, 1, 2], [2, 1, 0, 1, 2], [2, 1, 1, 1, 2],
                  [2, 2, 2, 2, 2]])"
  by code_simp

lemma mulDiagonal_one: "mulDiagonal 1 (14 / 10) = 1"
proof -
  have "\<lfloor>7 / 5 :: rat\<rfloor> = 1" by (rule floor_unique) simp_all
  then show ?thesis by (simp add: mulDiagonal_def truncateToInt_def)
qed

section \<open>The 5 by 5 scenario\<close>

text \<open>
  Claim C6, as amended. On the 5 by 5 grid of unit costs with the 8-way configuration
  (diagonal multiplier 1.4) and goal (2,2), the distance recorded for (0,0) is 2: each of
  the two diagonal steps costs \<open>int(1 * 1.4) = 1\<close>, the product being truncated
  before it is added.
\<close>

theorem diagonal_step_is_truncated:
  "\<exists>f'. SetGoal fiveByFive (Position 2 2) = Some (None, f') \<and>
        at2 (Distances (grid f')) (Position 0 0) = 2 \<and>
        mulDiagonal 1 (DiagonalCost (config fiveByFive)) = 1"
  using five_by_five_distances mulDiagonal_one
  by (auto simp: at2_def fiveByFive_def EightWayConfig_def)

text \<open>The same run refutes the distance \<open>round(2 * 1.4) = 3\<close> of claim C6.\<close>

theorem corner_distance_is_not_three:
  "\<exists>f'. SetGoal fiveByFive (Position 2 2) = Some (None, f') \<and>
        at2 (Distances (grid f')) (Position 0 0) \<noteq> 3"
  using five_by_five_distances by (auto simp: at2_def)

section \<open>A cost matrix of the wrong shape\<close>

text \<open>
  Claim C5 at a failing input. The navigator has a 2 by 2 grid of unit costs; the matrix
  has a first row of width 2 and a second row of width 1. \<open>UpdateCosts\<close> returns the
  width-mismatch error, and the first row of the stored costs has already been overwritten.
\<close>

theorem UpdateCosts_partial_copy:
  "\<exists>f'. UpdateCosts smallNavigator [[5, 5], [7]] = Some (Some ErrCostWidthMismatch, f') \<and>
        Costs (grid smallNavigator) = [[1, 1], [1, 1]] \<and>
        Costs (grid f') = [[5, 5], [1, 1]]"
  by (simp add: UpdateCosts_def smallNavigator_def NewGrid_def goCopy_def upto.simps
      numeral_2_eq_2)

lemma setter_frame:
  "Width (applyOp g op) = Width g" "Height (applyOp g op) = Height g"
  "wfGrid g \<Longrightarrow> wfGrid (applyOp g op)"
  by (cases op; simp add: SetObstacle_def SetBuilding_def SetCost_def wfGrid_def)+

lemma applyOp_keeps_marks:
  assumes "wfGrid g" "blockedIsMarked g"
  shows "blockedIsMarked (applyOp g op)"
proof -
  have c: "shaped (Width g) (Height g) (Costs g)"
    and t: "shaped (Width g) (Height g) (CellTypes g)"
    using assms(1) by (simp_all add: wfGrid_def)
  have v: "IsValidPosition (applyOp g op) p = IsValidPosition g p" for p
    by (simp add: IsValidPosition_def setter_frame)
  show ?thesis
  proof (cases op)
    case (OpSetObstacle pos)
    show ?thesis
      unfolding blockedIsMarked_def v
      using assms(2) OpSetObstacle
      by (auto simp: SetObstacle_def blockedIsMarked_def at2_put2_valid [OF c]
          at2_put2_valid [OF t])
  next
    case (OpSetBuilding pos)
    show ?thesis
      unfolding blockedIsMarked_def v
      using assms(2) OpSetBuilding
      by (auto simp: SetBuilding_def blockedIsMarked_def at2_put2_valid [OF c]
          at2_put2_valid [OF t])
  next
    case (OpSetCost pos cost)
    have "\<not> cost <s 0 \<Longrightarrow> cost \<noteq> - 1" by (auto simp: word_sless_alt)
    then show ?thesis
      unfolding blockedIsMarked_def v
      using assms(2) OpSetCost
      by (auto simp: SetCost_def blockedIsMarked_def at2_put2_valid [OF c])
  qed
qed

lemma foldl_applyOp_keeps_marks:
  "wfGrid g \<Longrightarrow> blockedIsMarked g \<Longrightarrow>
   wfGrid (foldl applyOp g ops) \<and> blockedIsMarked (foldl applyOp g ops)"
  by (induction ops arbitrary: g) (simp_all add: applyOp_keeps_marks setter_frame)

lemma NewGrid_marks: "blockedIsMarked (NewGrid w h)"
proof -
  have "at2 (Costs (NewGrid w h)) p = 1" if "IsValidPosition (NewGrid w h) p" for p
    using that by (simp add: NewGrid_def IsValidPosition_def at2_replicate)
  then show ?thesis by (auto simp: blockedIsMarked_def)
qed

section \<open>Costs and classifications\<close>

text \<open>
  Claim C4, as amended. After any sequence of \<open>SetObstacle\<close>, \<open>SetBuilding\<close> and
  \<open>SetCost\<close> calls on a new grid (a call that returns an error leaves the grid as it
  was), every in-bounds cell whose cost is -1 is classified \<open>Obstacle\<close> or
  \<open>Building\<close>.
\<close>

theorem blocked_cells_are_marked:
  "\<forall>p. IsValidPosition (foldl applyOp (NewGrid w h) ops) p \<longrightarrow>
       at2 (Costs (foldl applyOp (NewGrid w h) ops)) p = - 1 \<longrightarrow>
       at2 (CellTypes (foldl applyOp (NewGrid w h) ops)) p = Obstacle \<or>
       at2 (CellTypes (foldl applyOp (NewGrid w h) ops)) p = Building"
  using foldl_applyOp_keeps_marks [OF wfGrid_NewGrid NewGrid_marks, of w h ops]
  by (simp add: blockedIsMarked_def)

theorem blocked_cells_are_marked_witness:
  "IsValidPosition (foldl applyOp (NewGrid 2 1) [OpSetBuilding (Position 1 0)]) (Position 1 0) \<and>
   at2 (Costs (foldl applyOp (NewGrid 2 1) [OpSetBuilding (Position 1 0)])) (Position 1 0) = - 1 \<and>
   at2 (CellTypes (foldl applyOp (NewGrid 2 1) [OpSetBuilding (Position 1 0)])) (Position 1 0)
     = Building"
proof -
  let ?g = "foldl applyOp (NewGrid 2 1) [OpSetBuilding (Position 1 0)]"
  have v: "IsValidPosition ?g (Position 1 0)"
    by (simp add: SetBuilding_def IsValidPosition_def NewGrid_def)
  have c: "at2 (Costs ?g) (Position 1 0) = - 1"
    by (simp add: SetBuilding_def IsValidPosition_def NewGrid_def at2_def put2_def)
  have n: "at2 (CellTypes ?g) (Position 1 0) \<noteq> Obstacle"
    by (simp add: SetBuilding_def IsValidPosition_def NewGrid_def at2_def put2_def)
  from blocked_cells_are_marked [of 2 1 "[OpSetBuilding (Position 1 0)]"] v c n
  have "at2 (CellTypes ?g) (Position 1 0) = Building" by blast
  then show ?thesis using v c by blast
qed

lemma fresh_new: "NewFlowFieldNavigator (EightWayConfig 2 2) = Inr freshNavigator"
  by (simp add: NewFlowFieldNavigator_def Validate_def EightWayConfig_def freshNavigator_def
      EightWayDirections_def)

text \<open>
  The equivalence of claim C4 fails in both directions: \<open>SetCost\<close> on an obstacle
  cell leaves the classification \<open>Obstacle\<close> with a cost of 3, and
  \<open>UpdateCosts\<close> stores -1 in a cell that stays \<open>Passable\<close>.
\<close>

theorem cost_and_classification_diverge:
  "\<not> costMatchesType
        (foldl applyOp (NewGrid 1 1) [OpSetObstacle (Position 0 0), OpSetCost (Position 0 0) 3]) \<and>
   (\<exists>f'. UpdateCosts freshNavigator [[1, - 1], [1, 1]] = Some (None, f') \<and>
         \<not> costMatchesType (grid f'))"
proof
  let ?g = "foldl applyOp (NewGrid 1 1) [OpSetObstacle (Position 0 0), OpSetCost (Position 0 0) 3]"
  have "IsValidPosition ?g (Position 0 0) \<and> at2 (Costs ?g) (Position 0 0) = 3 \<and>
        at2 (CellTypes ?g) (Position 0 0) = Obstacle"
    by (simp add: SetObstacle_def SetCost_def IsValidPosition_def NewGrid_def at2_def put2_def
        word_sless_alt)
  then show "\<not> costMatchesType ?g" by (auto simp: costMatchesType_def)
next
  define f' where "f' = freshNavigator\<lparr> grid := (NewGrid 2 2)\<lparr> Costs := [[1, - 1], [1, 1]] \<rparr> \<rparr>"
  have u: "UpdateCosts freshNavigator [[1, - 1], [1, 1]] = Some (None, f')"
    by (simp add: f'_def UpdateCosts_def freshNavigator_def NewGrid_def goCopy_def upto.simps
        numeral_2_eq_2)
  have "IsValidPosition (grid f') (Position 1 0) \<and> at2 (Costs (grid f')) (Position 1 0) = - 1 \<and>
        at2 (CellTypes (grid f')) (Position 1 0) = Passable"
    by (simp add: f'_def IsValidPosition_def NewGrid_def at2_def)
  then have "\<not> costMatchesType (grid f')" by (auto simp: costMatchesType_def)
  then show "\<exists>f'. UpdateCosts freshNavigator [[1, - 1], [1, 1]] = Some (None, f') \<and>
      \<not> costMatchesType (grid f')"
    using u by blast
qed






section \<open>Recomputation with unchanged costs\<close>





section \<open>Costs written by UpdateCosts\<close>




lemma maxStepCost_sint [simp]: "sint maxStepCost = 9223372034707292160"
  by (simp add: maxStepCost_def)







section \<open>The goal cell after SetGoal\<close>





lemma lowered_refl [simp]: "lowered g g q q"
  by (simp add: lowered_def)










lemma word_of_int_sint_64: "word_of_int (sint c) = (c :: int64)"
  by simp




lemma dominated_Distances_update [simp]:
  "dominated cfg g1 (g\<lparr> Distances := D \<rparr>) = dominated cfg g1 g"
  by (simp add: dominated_def moveCostOf_def)









section \<open>Raising the cost of one cell\<close>




end
